theory Spec2Isabelle
  imports Complex_Main
begin

section \<open>One-dimensional pollutant transport: the explicit steppers of the notebook\<close>

text \<open>
  The notebook \<^verbatim>\<open>01_Fundamentos_Transporte_Contaminantes.ipynb\<close> defines four
  time steppers on a concentration profile (\<^verbatim>\<open>advection_step\<close>,
  \<^verbatim>\<open>diffusion_step\<close>, \<^verbatim>\<open>reaction_step\<close>, \<^verbatim>\<open>adr_step\<close>), the loops that
  drive them and closed-form Gaussian solutions.

  A concentration profile is a one-dimensional numpy array of floats; here it is a
  \<^typ>\<open>real list\<close>, so every statement below is about exact real arithmetic and not about
  IEEE rounding, overflow or \<^verbatim>\<open>nan\<close>. The scalars \<^verbatim>\<open>U\<close>, \<^verbatim>\<open>D\<close>, \<^verbatim>\<open>k\<close>, \<^verbatim>\<open>dx\<close>, \<^verbatim>\<open>dt\<close> are Python
  floats, so \<^verbatim>\<open>dt/dx\<close> raises \<^verbatim>\<open>ZeroDivisionError\<close> for a zero divisor. Indices are
  Python integers: a negative index counts from the end of the array, an index out of
  range raises \<^verbatim>\<open>IndexError\<close>.
\<close>

subsection \<open>Errors and the primitive operations\<close>

datatype error = IndexError | ZeroDivisionError

definition bnd :: "error + 'a \<Rightarrow> ('a \<Rightarrow> error + 'b) \<Rightarrow> error + 'b" where
  "bnd m f = (case m of Inl e \<Rightarrow> Inl e | Inr v \<Rightarrow> f v)"

text \<open>\<^verbatim>\<open>a / b\<close> on Python floats.\<close>

definition fdiv :: "real \<Rightarrow> real \<Rightarrow> error + real" where
  "fdiv a b = (if b = 0 then Inl ZeroDivisionError else Inr (a / b))"

text \<open>
  The position an index denotes in an array of length \<open>n\<close>: \<open>i\<close> itself when
  \<open>0 \<le> i < n\<close>, \<open>n + i\<close> when \<open>-n \<le> i < 0\<close>, and none otherwise.
\<close>

definition position :: "nat \<Rightarrow> int \<Rightarrow> nat option" where
  "position n i =
     (if i < - int n \<or> int n \<le> i then None
      else if i < 0 then Some (nat (int n + i))
      else Some (nat i))"

text \<open>\<^verbatim>\<open>C[i]\<close> and \<^verbatim>\<open>C_new[i] = v\<close> on a one-dimensional array.\<close>

definition getitem :: "real list \<Rightarrow> int \<Rightarrow> error + real" where
  "getitem xs i =
     (case position (length xs) i of None \<Rightarrow> Inl IndexError | Some j \<Rightarrow> Inr (xs ! j))"

definition setitem :: "real list \<Rightarrow> int \<Rightarrow> real \<Rightarrow> error + real list" where
  "setitem xs i v =
     (case position (length xs) i of None \<Rightarrow> Inl IndexError | Some j \<Rightarrow> Inr (xs[j := v]))"

text \<open>\<^verbatim>\<open>np.zeros_like(C)\<close>: a new array of the length of \<^verbatim>\<open>C\<close>, filled with zeros.\<close>

definition zeros_like :: "real list \<Rightarrow> real list" where
  "zeros_like C = replicate (length C) 0"

text \<open>\<^verbatim>\<open>range(a, b)\<close> and a \<^verbatim>\<open>for\<close> loop over it whose body may raise.\<close>

definition range_py :: "int \<Rightarrow> int \<Rightarrow> int list" where
  "range_py a b = [a..b - 1]"

fun for_loop :: "int list \<Rightarrow> (int \<Rightarrow> 's \<Rightarrow> error + 's) \<Rightarrow> 's \<Rightarrow> error + 's" where
  "for_loop [] body s = Inr s"
| "for_loop (i # is) body s =
     (case body i s of Inl e \<Rightarrow> Inl e | Inr s' \<Rightarrow> for_loop is body s')"

subsection \<open>The advection stepper\<close>

text \<open>
  \<^verbatim>\<open>
  def advection_step(C, U, dx, dt):
      n = len(C)
      C_new = np.zeros_like(C)
      for i in range(1, n):
          C_new[i] = C[i] - U * (dt/dx) * (C[i] - C[i-1])
      C_new[0] = C[0]
      return C_new
  \<close>
\<close>

definition advection_body ::
  "real list \<Rightarrow> real \<Rightarrow> real \<Rightarrow> real \<Rightarrow> int \<Rightarrow> real list \<Rightarrow> error + real list" where
  "advection_body C U dx dt i C_new =
     bnd (getitem C i) (\<lambda>ci.
     bnd (fdiv dt dx) (\<lambda>r.
     bnd (getitem C i) (\<lambda>ci'.
     bnd (getitem C (i - 1)) (\<lambda>cim.
     setitem C_new i (ci - U * r * (ci' - cim))))))"

definition advection_step :: "real list \<Rightarrow> real \<Rightarrow> real \<Rightarrow> real \<Rightarrow> error + real list" where
  "advection_step C U dx dt =
     (let n = int (length C);
          C_new = zeros_like C
      in bnd (for_loop (range_py 1 n) (advection_body C U dx dt) C_new) (\<lambda>C_new.
         bnd (getitem C 0) (\<lambda>c0.
         bnd (setitem C_new 0 c0) (\<lambda>C_new.
         Inr C_new))))"

subsection \<open>The diffusion stepper\<close>

text \<open>
  \<^verbatim>\<open>
  def diffusion_step(C, D, dx, dt):
      n = len(C)
      C_new = np.zeros_like(C)
      for i in range(1, n-1):
          C_new[i] = C[i] + D * (dt/dx**2) * (C[i+1] - 2*C[i] + C[i-1])
      C_new[0] = C[0] + D * (dt/dx**2) * (C[1] - C[0])
      C_new[n-1] = C[n-1] + D * (dt/dx**2) * (C[n-2] - C[n-1])
      return C_new
  \<close>
\<close>

definition diffusion_body ::
  "real list \<Rightarrow> real \<Rightarrow> real \<Rightarrow> real \<Rightarrow> int \<Rightarrow> real list \<Rightarrow> error + real list" where
  "diffusion_body C D dx dt i C_new =
     bnd (getitem C i) (\<lambda>c.
     bnd (fdiv dt (dx ^ 2)) (\<lambda>r.
     bnd (getitem C (i + 1)) (\<lambda>d0.
     bnd (getitem C i) (\<lambda>d1.
     bnd (getitem C (i - 1)) (\<lambda>d2.
     setitem C_new i (c + D * r * (d0 - 2 * d1 + d2)))))))"

definition diffusion_step :: "real list \<Rightarrow> real \<Rightarrow> real \<Rightarrow> real \<Rightarrow> error + real list" where
  "diffusion_step C D dx dt =
     (let n = int (length C);
          C_new = zeros_like C
      in bnd (for_loop (range_py 1 (n - 1)) (diffusion_body C D dx dt) C_new) (\<lambda>C_new.
         bnd (getitem C 0) (\<lambda>c.
         bnd (fdiv dt (dx ^ 2)) (\<lambda>r.
         bnd (getitem C 1) (\<lambda>d0.
         bnd (getitem C 0) (\<lambda>d1.
         bnd (setitem C_new 0 (c + D * r * (d0 - d1))) (\<lambda>C_new.
         bnd (getitem C (n - 1)) (\<lambda>c.
         bnd (fdiv dt (dx ^ 2)) (\<lambda>r.
         bnd (getitem C (n - 2)) (\<lambda>d0.
         bnd (getitem C (n - 1)) (\<lambda>d1.
         bnd (setitem C_new (n - 1) (c + D * r * (d0 - d1))) (\<lambda>C_new.
         Inr C_new))))))))))))"

subsection \<open>The reaction stepper and its driver loop\<close>

text \<open>
  \<^verbatim>\<open>
  def reaction_step(C, k, dt):
      return C * np.exp(-k * dt)
  \<close>
  The product of an array and a scalar is taken entry by entry and never raises.
\<close>

definition reaction_step :: "real list \<Rightarrow> real \<Rightarrow> real \<Rightarrow> real list" where
  "reaction_step C k dt = map (\<lambda>c. c * exp (- k * dt)) C"

text \<open>
  The time loop of \<^verbatim>\<open>simulate_reaction\<close>, with the local constants \<^verbatim>\<open>nt\<close>, \<^verbatim>\<open>k\<close>,
  \<^verbatim>\<open>dt\<close> and the initial profile as arguments, and without the snapshots it records:
  \<^verbatim>\<open>
  C = C_initial.copy()
  for t in range(1, nt+1):
      C = reaction_step(C, k, dt)
  \<close>
\<close>

definition simulate_reaction_loop :: "real list \<Rightarrow> real \<Rightarrow> real \<Rightarrow> nat \<Rightarrow> real list" where
  "simulate_reaction_loop C_initial k dt nt =
     fold (\<lambda>t C. reaction_step C k dt) (range_py 1 (int nt + 1)) C_initial"

subsection \<open>The combined advection-diffusion-reaction stepper\<close>

text \<open>
  \<^verbatim>\<open>
  def adr_step(C, U, D, k, dx, dt):
      n = len(C)
      C_new = np.zeros_like(C)
      for i in range(1, n-1):
          advection = -U * (dt/dx) * (C[i] - C[i-1])
          diffusion = D * (dt/dx**2) * (C[i+1] - 2*C[i] + C[i-1])
          reaction = -k * dt * C[i]
          C_new[i] = C[i] + advection + diffusion + reaction
      C_new[0] = C[0]
      C_new[n-1] = C[n-2]
      return C_new
  \<close>
\<close>

definition adr_body ::
  "real list \<Rightarrow> real \<Rightarrow> real \<Rightarrow> real \<Rightarrow> real \<Rightarrow> real \<Rightarrow> int \<Rightarrow> real list \<Rightarrow> error + real list" where
  "adr_body C U D k dx dt i C_new =
     bnd (fdiv dt dx) (\<lambda>r.
     bnd (getitem C i) (\<lambda>a0.
     bnd (getitem C (i - 1)) (\<lambda>a1.
     let advection = - U * r * (a0 - a1) in
     bnd (fdiv dt (dx ^ 2)) (\<lambda>r2.
     bnd (getitem C (i + 1)) (\<lambda>d0.
     bnd (getitem C i) (\<lambda>d1.
     bnd (getitem C (i - 1)) (\<lambda>d2.
     let diffusion = D * r2 * (d0 - 2 * d1 + d2) in
     bnd (getitem C i) (\<lambda>r0.
     let reaction = - k * dt * r0 in
     bnd (getitem C i) (\<lambda>c.
     setitem C_new i (c + advection + diffusion + reaction))))))))))"

definition adr_step ::
  "real list \<Rightarrow> real \<Rightarrow> real \<Rightarrow> real \<Rightarrow> real \<Rightarrow> real \<Rightarrow> error + real list" where
  "adr_step C U D k dx dt =
     (let n = int (length C);
          C_new = zeros_like C
      in bnd (for_loop (range_py 1 (n - 1)) (adr_body C U D k dx dt) C_new) (\<lambda>C_new.
         bnd (getitem C 0) (\<lambda>c.
         bnd (setitem C_new 0 c) (\<lambda>C_new.
         bnd (getitem C (n - 2)) (\<lambda>c.
         bnd (setitem C_new (n - 1) c) (\<lambda>C_new.
         Inr C_new))))))"

text \<open>\<^verbatim>\<open>f(...)[i]\<close>: the entry \<open>i\<close> of what a stepper returns, if it returns.\<close>

definition item :: "error + real list \<Rightarrow> int \<Rightarrow> error + real" where
  "item r i = bnd r (\<lambda>xs. getitem xs i)"

subsection \<open>The analytic solution of pure diffusion\<close>

text \<open>
  In \<^verbatim>\<open>diffusion_multiple_cases\<close>, for the grid \<^verbatim>\<open>x\<close> (an array) and each coefficient
  \<^verbatim>\<open>diffusion\<close>:
  \<^verbatim>\<open>
  C_0 = np.exp(-0.5 * ((x - mu) / sigma_0) ** 2)
  sigma_t = np.sqrt(sigma_0**2 + 2 * diffusion * time)
  amplitude = sigma_0 / sigma_t
  C_t = amplitude * np.exp(-0.5 * ((x - mu) / sigma_t) ** 2)
  \<close>
  These are numpy operations: a zero divisor or a negative radicand gives \<^verbatim>\<open>inf\<close> or
  \<^verbatim>\<open>nan\<close> with a warning, no exception. The model is meant for \<open>sigma_0 > 0\<close> and
  \<open>sigma_0^2 + 2 * diffusion * time > 0\<close>, where neither happens.
\<close>

definition C_0 :: "real list \<Rightarrow> real \<Rightarrow> real \<Rightarrow> real list" where
  "C_0 x mu sigma_0 = map (\<lambda>xi. exp (- 0.5 * ((xi - mu) / sigma_0) ^ 2)) x"

definition sigma_t :: "real \<Rightarrow> real \<Rightarrow> real \<Rightarrow> real" where
  "sigma_t sigma_0 diffusion time = sqrt (sigma_0 ^ 2 + 2 * diffusion * time)"

definition amplitude :: "real \<Rightarrow> real \<Rightarrow> real \<Rightarrow> real" where
  "amplitude sigma_0 diffusion time = sigma_0 / sigma_t sigma_0 diffusion time"

definition C_t :: "real list \<Rightarrow> real \<Rightarrow> real \<Rightarrow> real \<Rightarrow> real \<Rightarrow> real list" where
  "C_t x mu sigma_0 diffusion time =
     map (\<lambda>xi. amplitude sigma_0 diffusion time
                * exp (- 0.5 * ((xi - mu) / sigma_t sigma_0 diffusion time) ^ 2)) x"

subsection \<open>The steppers on a store of arrays\<close>

text \<open>
  A numpy array is a mutable object, and a stepper receives a reference to it. To say
  what a call does to the arrays that exist, the steppers are modelled a second time on a
  store: the list of all arrays allocated so far, an array being named by its position in
  that list. A program takes the store and returns its result, or the error it raised,
  together with the store it leaves. Allocation appends to the store; \<^verbatim>\<open>C_new[i] = v\<close>
  replaces the array at the position of \<^verbatim>\<open>C_new\<close>; \<^verbatim>\<open>C[i]\<close> reads the store as it is
  at that moment. A reference always names an allocated array, so the positions passed
  in are assumed to be smaller than the length of the store.
\<close>

type_synonym store = "real list list"

definition hret :: "'a \<Rightarrow> store \<Rightarrow> (error + 'a) \<times> store" where
  "hret v h = (Inr v, h)"

definition hbnd ::
  "(store \<Rightarrow> (error + 'a) \<times> store) \<Rightarrow> ('a \<Rightarrow> store \<Rightarrow> (error + 'b) \<times> store)
     \<Rightarrow> store \<Rightarrow> (error + 'b) \<times> store" where
  "hbnd m f h = (case m h of (Inl e, h') \<Rightarrow> (Inl e, h') | (Inr v, h') \<Rightarrow> f v h')"

text \<open>\<^verbatim>\<open>len(C)\<close>, \<^verbatim>\<open>np.zeros_like(C)\<close>, \<^verbatim>\<open>C[i]\<close>, \<^verbatim>\<open>C_new[i] = v\<close>, \<^verbatim>\<open>x / y\<close>.\<close>

definition h_len :: "nat \<Rightarrow> store \<Rightarrow> (error + int) \<times> store" where
  "h_len a h = (Inr (int (length (h ! a))), h)"

definition h_zeros_like :: "nat \<Rightarrow> store \<Rightarrow> (error + nat) \<times> store" where
  "h_zeros_like a h = (Inr (length h), h @ [zeros_like (h ! a)])"

definition h_getitem :: "nat \<Rightarrow> int \<Rightarrow> store \<Rightarrow> (error + real) \<times> store" where
  "h_getitem a i h = (getitem (h ! a) i, h)"

definition h_setitem :: "nat \<Rightarrow> int \<Rightarrow> real \<Rightarrow> store \<Rightarrow> (error + unit) \<times> store" where
  "h_setitem a i v h =
     (case setitem (h ! a) i v of Inl e \<Rightarrow> (Inl e, h) | Inr xs \<Rightarrow> (Inr (), h[a := xs]))"

definition h_fdiv :: "real \<Rightarrow> real \<Rightarrow> store \<Rightarrow> (error + real) \<times> store" where
  "h_fdiv x y h = (fdiv x y, h)"

text \<open>\<^verbatim>\<open>C * c\<close> for an array and a scalar: a new array.\<close>

definition h_scale :: "nat \<Rightarrow> real \<Rightarrow> store \<Rightarrow> (error + nat) \<times> store" where
  "h_scale a c h = (Inr (length h), h @ [map (\<lambda>x. x * c) (h ! a)])"

fun h_for ::
  "int list \<Rightarrow> (int \<Rightarrow> store \<Rightarrow> (error + unit) \<times> store) \<Rightarrow> store \<Rightarrow> (error + unit) \<times> store" where
  "h_for [] body h = (Inr (), h)"
| "h_for (i # is) body h =
     (case body i h of (Inl e, h') \<Rightarrow> (Inl e, h') | (Inr u, h') \<Rightarrow> h_for is body h')"

definition advection_body_h ::
  "nat \<Rightarrow> nat \<Rightarrow> real \<Rightarrow> real \<Rightarrow> real \<Rightarrow> int \<Rightarrow> store \<Rightarrow> (error + unit) \<times> store" where
  "advection_body_h C C_new U dx dt i =
     hbnd (h_getitem C i) (\<lambda>ci.
     hbnd (h_fdiv dt dx) (\<lambda>r.
     hbnd (h_getitem C i) (\<lambda>ci'.
     hbnd (h_getitem C (i - 1)) (\<lambda>cim.
     h_setitem C_new i (ci - U * r * (ci' - cim))))))"

definition advection_step_h ::
  "nat \<Rightarrow> real \<Rightarrow> real \<Rightarrow> real \<Rightarrow> store \<Rightarrow> (error + nat) \<times> store" where
  "advection_step_h C U dx dt =
     hbnd (h_len C) (\<lambda>n.
     hbnd (h_zeros_like C) (\<lambda>C_new.
     hbnd (h_for (range_py 1 n) (advection_body_h C C_new U dx dt)) (\<lambda>u.
     hbnd (h_getitem C 0) (\<lambda>c0.
     hbnd (h_setitem C_new 0 c0) (\<lambda>u.
     hret C_new)))))"

definition diffusion_body_h ::
  "nat \<Rightarrow> nat \<Rightarrow> real \<Rightarrow> real \<Rightarrow> real \<Rightarrow> int \<Rightarrow> store \<Rightarrow> (error + unit) \<times> store" where
  "diffusion_body_h C C_new D dx dt i =
     hbnd (h_getitem C i) (\<lambda>c.
     hbnd (h_fdiv dt (dx ^ 2)) (\<lambda>r.
     hbnd (h_getitem C (i + 1)) (\<lambda>d0.
     hbnd (h_getitem C i) (\<lambda>d1.
     hbnd (h_getitem C (i - 1)) (\<lambda>d2.
     h_setitem C_new i (c + D * r * (d0 - 2 * d1 + d2)))))))"

definition diffusion_step_h ::
  "nat \<Rightarrow> real \<Rightarrow> real \<Rightarrow> real \<Rightarrow> store \<Rightarrow> (error + nat) \<times> store" where
  "diffusion_step_h C D dx dt =
     hbnd (h_len C) (\<lambda>n.
     hbnd (h_zeros_like C) (\<lambda>C_new.
     hbnd (h_for (range_py 1 (n - 1)) (diffusion_body_h C C_new D dx dt)) (\<lambda>u.
     hbnd (h_getitem C 0) (\<lambda>c.
     hbnd (h_fdiv dt (dx ^ 2)) (\<lambda>r.
     hbnd (h_getitem C 1) (\<lambda>d0.
     hbnd (h_getitem C 0) (\<lambda>d1.
     hbnd (h_setitem C_new 0 (c + D * r * (d0 - d1))) (\<lambda>u.
     hbnd (h_getitem C (n - 1)) (\<lambda>c.
     hbnd (h_fdiv dt (dx ^ 2)) (\<lambda>r.
     hbnd (h_getitem C (n - 2)) (\<lambda>d0.
     hbnd (h_getitem C (n - 1)) (\<lambda>d1.
     hbnd (h_setitem C_new (n - 1) (c + D * r * (d0 - d1))) (\<lambda>u.
     hret C_new)))))))))))))"

definition reaction_step_h :: "nat \<Rightarrow> real \<Rightarrow> real \<Rightarrow> store \<Rightarrow> (error + nat) \<times> store" where
  "reaction_step_h C k dt = h_scale C (exp (- k * dt))"

definition adr_body_h ::
  "nat \<Rightarrow> nat \<Rightarrow> real \<Rightarrow> real \<Rightarrow> real \<Rightarrow> real \<Rightarrow> real \<Rightarrow> int
     \<Rightarrow> store \<Rightarrow> (error + unit) \<times> store" where
  "adr_body_h C C_new U D k dx dt i =
     hbnd (h_fdiv dt dx) (\<lambda>r.
     hbnd (h_getitem C i) (\<lambda>a0.
     hbnd (h_getitem C (i - 1)) (\<lambda>a1.
     let advection = - U * r * (a0 - a1) in
     hbnd (h_fdiv dt (dx ^ 2)) (\<lambda>r2.
     hbnd (h_getitem C (i + 1)) (\<lambda>d0.
     hbnd (h_getitem C i) (\<lambda>d1.
     hbnd (h_getitem C (i - 1)) (\<lambda>d2.
     let diffusion = D * r2 * (d0 - 2 * d1 + d2) in
     hbnd (h_getitem C i) (\<lambda>r0.
     let reaction = - k * dt * r0 in
     hbnd (h_getitem C i) (\<lambda>c.
     h_setitem C_new i (c + advection + diffusion + reaction))))))))))"

definition adr_step_h ::
  "nat \<Rightarrow> real \<Rightarrow> real \<Rightarrow> real \<Rightarrow> real \<Rightarrow> real \<Rightarrow> store \<Rightarrow> (error + nat) \<times> store" where
  "adr_step_h C U D k dx dt =
     hbnd (h_len C) (\<lambda>n.
     hbnd (h_zeros_like C) (\<lambda>C_new.
     hbnd (h_for (range_py 1 (n - 1)) (adr_body_h C C_new U D k dx dt)) (\<lambda>u.
     hbnd (h_getitem C 0) (\<lambda>c.
     hbnd (h_setitem C_new 0 c) (\<lambda>u.
     hbnd (h_getitem C (n - 2)) (\<lambda>c.
     hbnd (h_setitem C_new (n - 1) c) (\<lambda>u.
     hret C_new)))))))"

text \<open>
  What a call that received the array at position \<open>C\<close> of the store \<open>h\<close> may do: every
  array of \<open>h\<close> is left as it was, the one at \<open>C\<close> in particular, and a result is the
  position of an array that did not exist in \<open>h\<close> and has the length of the one at \<open>C\<close>.
\<close>

definition fresh_call :: "store \<Rightarrow> nat \<Rightarrow> (error + nat) \<times> store \<Rightarrow> bool" where
  "fresh_call h C x \<longleftrightarrow>
     (case x of (r, h') \<Rightarrow>
        take (length h) h' = h \<and> h' ! C = h ! C
        \<and> (case r of Inl e \<Rightarrow> True
            | Inr a \<Rightarrow> a = length h \<and> a < length h' \<and> length (h' ! a) = length (h ! C)))"

text \<open>
  The array a loop has reached when it stops, normally or by an error, and the relation
  between a run on the store \<open>h0\<close> extended by the new array and the result \<open>pr\<close> of the
  stepper on lists: the same error or the position of the new array, \<open>h0\<close> untouched, and
  the new array equal to the list returned.
\<close>

fun for_loop_state :: "int list \<Rightarrow> (int \<Rightarrow> 's \<Rightarrow> error + 's) \<Rightarrow> 's \<Rightarrow> 's" where
  "for_loop_state [] body s = s"
| "for_loop_state (i # is) body s =
     (case body i s of Inl e \<Rightarrow> s | Inr s' \<Rightarrow> for_loop_state is body s')"

definition sim :: "store \<Rightarrow> nat \<Rightarrow> (error + nat) \<times> store \<Rightarrow> error + real list \<Rightarrow> bool" where
  "sim h0 n x pr \<longleftrightarrow>
     (\<exists>cn. x = (case pr of Inl e \<Rightarrow> Inl e | Inr C' \<Rightarrow> Inr (length h0), h0 @ [cn])
          \<and> length cn = n \<and> (\<forall>C'. pr = Inr C' \<longrightarrow> cn = C'))"

subsection \<open>Closed forms of the stored values\<close>

text \<open>The value each loop stores at index \<open>i\<close>, as a function of the old profile.\<close>

definition advection_point :: "real list \<Rightarrow> real \<Rightarrow> real \<Rightarrow> real \<Rightarrow> int \<Rightarrow> real" where
  "advection_point C U dx dt i =
     C ! nat i - U * (dt / dx) * (C ! nat i - C ! nat (i - 1))"

definition diffusion_point :: "real list \<Rightarrow> real \<Rightarrow> real \<Rightarrow> real \<Rightarrow> int \<Rightarrow> real" where
  "diffusion_point C D dx dt i =
     C ! nat i + D * (dt / dx ^ 2) * (C ! nat (i + 1) - 2 * C ! nat i + C ! nat (i - 1))"

definition adr_point ::
  "real list \<Rightarrow> real \<Rightarrow> real \<Rightarrow> real \<Rightarrow> real \<Rightarrow> real \<Rightarrow> int \<Rightarrow> real" where
  "adr_point C U D k dx dt i =
     C ! nat i + - U * (dt / dx) * (C ! nat i - C ! nat (i - 1))
       + D * (dt / dx ^ 2) * (C ! nat (i + 1) - 2 * C ! nat i + C ! nat (i - 1))
       + - k * dt * C ! nat i"

section \<open>Properties\<close>

subsection \<open>Loops that fill an array\<close>

lemma bnd_Inr [simp]: "bnd (Inr v) f = f v"
  by (simp add: bnd_def)

lemma bnd_Inl [simp]: "bnd (Inl e) f = Inl e"
  by (simp add: bnd_def)

lemma getitem_nat:
  "0 \<le> i \<Longrightarrow> i < int (length xs) \<Longrightarrow> getitem xs i = Inr (xs ! nat i)"
  by (simp add: getitem_def position_def)

lemma setitem_nat:
  "0 \<le> i \<Longrightarrow> i < int (length xs) \<Longrightarrow> setitem xs i v = Inr (xs[nat i := v])"
  by (simp add: setitem_def position_def)

lemma fdiv_nonzero: "b \<noteq> 0 \<Longrightarrow> fdiv a b = Inr (a / b)"
  by (simp add: fdiv_def)

lemma fdiv_zero [simp]: "fdiv a 0 = Inl ZeroDivisionError"
  by (simp add: fdiv_def)

text \<open>
  A loop whose body stores \<open>f i\<close> at index \<open>i\<close> of an array of length \<open>n\<close> never raises
  and performs exactly these stores, in order.
\<close>

lemma for_loop_stores:
  assumes "\<And>i s. i \<in> set js \<Longrightarrow> length s = n \<Longrightarrow> body i s = Inr (s[nat i := f i])"
    and "length s = n"
  shows "for_loop js body s = Inr (fold (\<lambda>i s. s[nat i := f i]) js s)"
  using assms
proof (induction js arbitrary: s)
  case Nil
  then show ?case by simp
next
  case (Cons j js)
  have step: "body j s = Inr (s[nat j := f j])"
    using Cons.prems by simp
  have "for_loop js body (s[nat j := f j]) = Inr (fold (\<lambda>i s. s[nat i := f i]) js (s[nat j := f j]))"
    using Cons.prems by (intro Cons.IH) simp_all
  with step show ?case by simp
qed

lemma length_fold_stores [simp]:
  "length (fold (\<lambda>i s. s[nat i := f i]) js s) = length s"
  by (induction js arbitrary: s) simp_all

lemma nth_fold_stores:
  assumes "\<forall>i\<in>set js. 0 \<le> i" and "j < length s"
  shows "fold (\<lambda>i s. s[nat i := f i]) js s ! j = (if int j \<in> set js then f (int j) else s ! j)"
  using assms
proof (induction js arbitrary: s)
  case Nil
  then show ?case by simp
next
  case (Cons a js)
  have a: "0 \<le> a" using Cons.prems by simp
  have eq: "nat a = j \<longleftrightarrow> a = int j" using a by auto
  have "fold (\<lambda>i s. s[nat i := f i]) js (s[nat a := f a]) ! j
        = (if int j \<in> set js then f (int j) else s[nat a := f a] ! j)"
    using Cons.prems by (intro Cons.IH) simp_all
  then show ?case
    using Cons.prems(2) eq by (auto simp: nth_list_update)
qed

text \<open>A loop whose body raises at its first index raises.\<close>

lemma for_loop_raises:
  assumes "a < b" and "\<And>s. body a s = Inl e"
  shows "for_loop (range_py a b) body s = Inl e"
proof -
  have "range_py a b = a # [a + 1..b - 1]"
    using assms(1) by (simp add: range_py_def upto_rec1)
  then show ?thesis using assms(2) by simp
qed

lemma set_range_py [simp]: "set (range_py a b) = {a..<b}"
  by (auto simp: range_py_def)

subsection \<open>What the advection stepper returns\<close>

lemma advection_body_stores:
  assumes "dx \<noteq> 0" and "i \<in> set (range_py 1 (int (length C)))" and "length s = length C"
  shows "advection_body C U dx dt i s = Inr (s[nat i := advection_point C U dx dt i])"
  using assms
  by (simp add: advection_body_def getitem_nat setitem_nat fdiv_nonzero advection_point_def)

lemma advection_loop:
  assumes "dx \<noteq> 0"
  shows "for_loop (range_py 1 (int (length C))) (advection_body C U dx dt) (zeros_like C)
         = Inr (fold (\<lambda>i s. s[nat i := advection_point C U dx dt i])
                  (range_py 1 (int (length C))) (zeros_like C))"
  by (rule for_loop_stores [where n = "length C"])
     (simp_all add: advection_body_stores [OF assms] zeros_like_def)

lemma advection_step_returns:
  assumes "C \<noteq> []" and "dx \<noteq> 0"
  shows "advection_step C U dx dt =
           Inr ((fold (\<lambda>i s. s[nat i := advection_point C U dx dt i])
                  (range_py 1 (int (length C))) (zeros_like C))[0 := C ! 0])"
proof -
  have "length (zeros_like C) = length C"
    by (simp add: zeros_like_def)
  then show ?thesis
    using assms(1)
    by (simp add: advection_step_def Let_def advection_loop [OF assms(2)]
        getitem_nat setitem_nat)
qed

lemma advection_step_nth:
  assumes "C \<noteq> []" and "dx \<noteq> 0"
  obtains C' where "advection_step C U dx dt = Inr C'" and "length C' = length C"
    and "C' ! 0 = C ! 0"
    and "\<And>i. 1 \<le> i \<Longrightarrow> i < length C \<Longrightarrow> C' ! i = C ! i - U * (dt / dx) * (C ! i - C ! (i - 1))"
proof
  let ?C' = "(fold (\<lambda>i s. s[nat i := advection_point C U dx dt i])
                  (range_py 1 (int (length C))) (zeros_like C))[0 := C ! 0]"
  show "advection_step C U dx dt = Inr ?C'"
    by (rule advection_step_returns [OF assms])
  show "length ?C' = length C"
    by (simp add: zeros_like_def)
  show "?C' ! 0 = C ! 0"
    using assms(1) by (simp add: zeros_like_def)
  show "?C' ! i = C ! i - U * (dt / dx) * (C ! i - C ! (i - 1))" if "1 \<le> i" "i < length C" for i
  proof -
    have "?C' ! i = fold (\<lambda>i s. s[nat i := advection_point C U dx dt i])
                  (range_py 1 (int (length C))) (zeros_like C) ! i"
      using that by simp
    also have "\<dots> = advection_point C U dx dt (int i)"
      using that by (subst nth_fold_stores) (auto simp: zeros_like_def)
    also have "\<dots> = C ! i - U * (dt / dx) * (C ! i - C ! (i - 1))"
      using that by (simp add: advection_point_def nat_diff_distrib')
    finally show ?thesis .
  qed
qed

subsection \<open>What the diffusion and the combined stepper return\<close>

lemma diffusion_body_stores:
  assumes "dx \<noteq> 0" and "i \<in> set (range_py 1 (int (length C) - 1))" and "length s = length C"
  shows "diffusion_body C D dx dt i s = Inr (s[nat i := diffusion_point C D dx dt i])"
  using assms
  by (simp add: diffusion_body_def getitem_nat setitem_nat fdiv_nonzero diffusion_point_def)

lemma diffusion_loop:
  assumes "dx \<noteq> 0"
  shows "for_loop (range_py 1 (int (length C) - 1)) (diffusion_body C D dx dt) (zeros_like C)
         = Inr (fold (\<lambda>i s. s[nat i := diffusion_point C D dx dt i])
                  (range_py 1 (int (length C) - 1)) (zeros_like C))"
  by (rule for_loop_stores [where n = "length C"])
     (simp_all add: diffusion_body_stores [OF assms] zeros_like_def)

lemma length_zeros_like [simp]: "length (zeros_like C) = length C"
  by (simp add: zeros_like_def)

lemma diffusion_step_returns:
  assumes "2 \<le> length C" and "dx \<noteq> 0"
  shows "diffusion_step C D dx dt =
           Inr ((fold (\<lambda>i s. s[nat i := diffusion_point C D dx dt i])
                  (range_py 1 (int (length C) - 1)) (zeros_like C))
                [0 := C ! 0 + D * (dt / dx ^ 2) * (C ! 1 - C ! 0),
                 length C - 1 := C ! (length C - 1)
                    + D * (dt / dx ^ 2) * (C ! (length C - 2) - C ! (length C - 1))])"
proof -
  have "nat (int (length C) - 1) = length C - 1" "nat (int (length C) - 2) = length C - 2"
    by simp_all
  moreover have "C \<noteq> []"
    using assms(1) by auto
  ultimately show ?thesis
    using assms
    by (simp add: diffusion_step_def Let_def diffusion_loop [OF assms(2)]
        getitem_nat setitem_nat fdiv_nonzero)
qed

lemma diffusion_step_nth:
  assumes "2 \<le> length C" and "dx \<noteq> 0"
  obtains C' where "diffusion_step C D dx dt = Inr C'" and "length C' = length C"
    and "C' ! 0 = C ! 0 + D * (dt / dx ^ 2) * (C ! 1 - C ! 0)"
    and "C' ! (length C - 1) = C ! (length C - 1)
            + D * (dt / dx ^ 2) * (C ! (length C - 2) - C ! (length C - 1))"
    and "\<And>i. 1 \<le> i \<Longrightarrow> i + 1 < length C \<Longrightarrow>
            C' ! i = C ! i + D * (dt / dx ^ 2) * (C ! (i + 1) - 2 * C ! i + C ! (i - 1))"
proof
  let ?F = "fold (\<lambda>i s. s[nat i := diffusion_point C D dx dt i])
                  (range_py 1 (int (length C) - 1)) (zeros_like C)"
  let ?C' = "?F [0 := C ! 0 + D * (dt / dx ^ 2) * (C ! 1 - C ! 0),
                 length C - 1 := C ! (length C - 1)
                    + D * (dt / dx ^ 2) * (C ! (length C - 2) - C ! (length C - 1))]"
  show "diffusion_step C D dx dt = Inr ?C'"
    by (rule diffusion_step_returns [OF assms])
  have ne: "C \<noteq> []"
    using assms(1) by auto
  show "length ?C' = length C"
    by simp
  show "?C' ! 0 = C ! 0 + D * (dt / dx ^ 2) * (C ! 1 - C ! 0)"
    using assms(1) ne by (simp add: nth_list_update)
  show "?C' ! (length C - 1) = C ! (length C - 1)
            + D * (dt / dx ^ 2) * (C ! (length C - 2) - C ! (length C - 1))"
    using assms(1) by simp
  show "?C' ! i = C ! i + D * (dt / dx ^ 2) * (C ! (i + 1) - 2 * C ! i + C ! (i - 1))"
    if "1 \<le> i" "i + 1 < length C" for i
  proof -
    have "?C' ! i = ?F ! i"
      using that by simp
    also have "\<dots> = diffusion_point C D dx dt (int i)"
      using that by (subst nth_fold_stores) auto
    also have "\<dots> = C ! i + D * (dt / dx ^ 2) * (C ! (i + 1) - 2 * C ! i + C ! (i - 1))"
      using that by (simp add: diffusion_point_def nat_diff_distrib' nat_add_distrib)
    finally show ?thesis .
  qed
qed

lemma adr_body_stores:
  assumes "dx \<noteq> 0" and "i \<in> set (range_py 1 (int (length C) - 1))" and "length s = length C"
  shows "adr_body C U D k dx dt i s = Inr (s[nat i := adr_point C U D k dx dt i])"
  using assms
  by (simp add: adr_body_def getitem_nat setitem_nat fdiv_nonzero adr_point_def Let_def)

lemma adr_loop:
  assumes "dx \<noteq> 0"
  shows "for_loop (range_py 1 (int (length C) - 1)) (adr_body C U D k dx dt) (zeros_like C)
         = Inr (fold (\<lambda>i s. s[nat i := adr_point C U D k dx dt i])
                  (range_py 1 (int (length C) - 1)) (zeros_like C))"
  by (rule for_loop_stores [where n = "length C"])
     (simp_all add: adr_body_stores [OF assms] zeros_like_def)

lemma adr_step_returns:
  assumes "2 \<le> length C" and "dx \<noteq> 0"
  shows "adr_step C U D k dx dt =
           Inr ((fold (\<lambda>i s. s[nat i := adr_point C U D k dx dt i])
                  (range_py 1 (int (length C) - 1)) (zeros_like C))
                [0 := C ! 0, length C - 1 := C ! (length C - 2)])"
proof -
  have "nat (int (length C) - 1) = length C - 1" "nat (int (length C) - 2) = length C - 2"
    by simp_all
  moreover have "C \<noteq> []"
    using assms(1) by auto
  ultimately show ?thesis
    using assms
    by (simp add: adr_step_def Let_def adr_loop [OF assms(2)] getitem_nat setitem_nat)
qed

lemma adr_step_nth:
  assumes "2 \<le> length C" and "dx \<noteq> 0"
  obtains C' where "adr_step C U D k dx dt = Inr C'" and "length C' = length C"
    and "C' ! 0 = C ! 0"
    and "C' ! (length C - 1) = C ! (length C - 2)"
    and "\<And>i. 1 \<le> i \<Longrightarrow> i + 1 < length C \<Longrightarrow>
            C' ! i = C ! i + - U * (dt / dx) * (C ! i - C ! (i - 1))
                       + D * (dt / dx ^ 2) * (C ! (i + 1) - 2 * C ! i + C ! (i - 1))
                       + - k * dt * C ! i"
proof
  let ?F = "fold (\<lambda>i s. s[nat i := adr_point C U D k dx dt i])
                  (range_py 1 (int (length C) - 1)) (zeros_like C)"
  let ?C' = "?F [0 := C ! 0, length C - 1 := C ! (length C - 2)]"
  show "adr_step C U D k dx dt = Inr ?C'"
    by (rule adr_step_returns [OF assms])
  have ne: "C \<noteq> []"
    using assms(1) by auto
  show "length ?C' = length C"
    by simp
  show "?C' ! 0 = C ! 0"
    using assms(1) ne by (simp add: nth_list_update)
  show "?C' ! (length C - 1) = C ! (length C - 2)"
    using assms(1) by simp
  show "?C' ! i = C ! i + - U * (dt / dx) * (C ! i - C ! (i - 1))
                       + D * (dt / dx ^ 2) * (C ! (i + 1) - 2 * C ! i + C ! (i - 1))
                       + - k * dt * C ! i"
    if "1 \<le> i" "i + 1 < length C" for i
  proof -
    have "?C' ! i = ?F ! i"
      using that by simp
    also have "\<dots> = adr_point C U D k dx dt (int i)"
      using that by (subst nth_fold_stores) auto
    also have "\<dots> = C ! i + - U * (dt / dx) * (C ! i - C ! (i - 1))
                       + D * (dt / dx ^ 2) * (C ! (i + 1) - 2 * C ! i + C ! (i - 1))
                       + - k * dt * C ! i"
      using that by (simp add: adr_point_def nat_diff_distrib' nat_add_distrib)
    finally show ?thesis .
  qed
qed

subsection \<open>Total mass after one step\<close>

lemma sum_ends:
  fixes f :: "nat \<Rightarrow> real"
  shows "(\<Sum>i = 0..<Suc (Suc m). f i) = f 0 + (\<Sum>i = 0..<m. f (Suc i)) + f (Suc m)"
proof -
  have "(\<Sum>i = 0..<Suc (Suc m). f i) = (\<Sum>i = 0..<Suc m. f i) + f (Suc m)"
    by simp
  also have "(\<Sum>i = 0..<Suc m. f i) = f 0 + (\<Sum>i = 0..<m. f (Suc i))"
    by (simp only: sum.atLeast0_lessThan_Suc_shift o_def)
  finally show ?thesis .
qed

lemma diffusion_step_sum:
  assumes "2 \<le> length C" and "dx \<noteq> 0"
  obtains C' where "diffusion_step C D dx dt = Inr C'" and "length C' = length C"
    and "sum_list C' = sum_list C"
proof -
  obtain m where n: "length C = Suc (Suc m)"
    using assms(1) by (metis add_2_eq_Suc le_Suc_ex)
  define r where "r = D * (dt / dx ^ 2)"
  from diffusion_step_nth [OF assms, of D dt]
  obtain C' where ret: "diffusion_step C D dx dt = Inr C'" and len: "length C' = length C"
    and left: "C' ! 0 = C ! 0 + r * (C ! 1 - C ! 0)"
    and right: "C' ! (length C - 1) = C ! (length C - 1)
            + r * (C ! (length C - 2) - C ! (length C - 1))"
    and pts: "\<And>i. 1 \<le> i \<Longrightarrow> i + 1 < length C \<Longrightarrow>
            C' ! i = C ! i + r * (C ! (i + 1) - 2 * C ! i + C ! (i - 1))"
    unfolding r_def by blast
  define d where "d i = C ! Suc i - C ! i" for i
  have inner: "C' ! Suc i = C ! Suc i + r * (d (Suc i) - d i)" if "i < m" for i
    using pts [of "Suc i"] that n by (simp add: d_def algebra_simps)
  have "sum_list C' = (\<Sum>i = 0..<Suc (Suc m). C' ! i)"
    using len n by (simp add: sum_list_sum_nth)
  also have "\<dots> = C' ! 0 + (\<Sum>i = 0..<m. C' ! Suc i) + C' ! Suc m"
    by (rule sum_ends)
  also have "(\<Sum>i = 0..<m. C' ! Suc i) = (\<Sum>i = 0..<m. C ! Suc i + r * (d (Suc i) - d i))"
    using inner by simp
  also have "\<dots> = (\<Sum>i = 0..<m. C ! Suc i) + r * (\<Sum>i = 0..<m. d (Suc i) - d i)"
    by (simp add: sum.distrib sum_distrib_left)
  also have "(\<Sum>i = 0..<m. d (Suc i) - d i) = d m - d 0"
    by (rule sum_Suc_diff') simp
  also have "C' ! 0 = C ! 0 + r * d 0"
    using left by (simp add: d_def)
  also have "C' ! Suc m = C ! Suc m - r * d m"
    using right n by (simp add: d_def algebra_simps)
  finally have "sum_list C' = C ! 0 + (\<Sum>i = 0..<m. C ! Suc i) + C ! Suc m"
    by (simp add: algebra_simps)
  also have "\<dots> = (\<Sum>i = 0..<Suc (Suc m). C ! i)"
    by (rule sum_ends [symmetric])
  also have "\<dots> = sum_list C"
    using n by (simp add: sum_list_sum_nth)
  finally have "sum_list C' = sum_list C" .
  with ret len show ?thesis by (rule that)
qed

lemma advection_step_sum:
  assumes "C \<noteq> []" and "dx \<noteq> 0"
  obtains C' where "advection_step C U dx dt = Inr C'" and "length C' = length C"
    and "sum_list C' = sum_list C - U * (dt / dx) * (C ! (length C - 1) - C ! 0)"
proof -
  obtain m where n: "length C = Suc m"
    using assms(1) by (cases C) auto
  define r where "r = U * (dt / dx)"
  from advection_step_nth [OF assms, of U dt]
  obtain C' where ret: "advection_step C U dx dt = Inr C'" and len: "length C' = length C"
    and left: "C' ! 0 = C ! 0"
    and pts: "\<And>i. 1 \<le> i \<Longrightarrow> i < length C \<Longrightarrow> C' ! i = C ! i - r * (C ! i - C ! (i - 1))"
    unfolding r_def by blast
  have inner: "C' ! Suc i = C ! Suc i - r * (C ! Suc i - C ! i)" if "i < m" for i
    using pts [of "Suc i"] that n by simp
  have "sum_list C' = (\<Sum>i = 0..<Suc m. C' ! i)"
    using len n by (simp add: sum_list_sum_nth)
  also have "\<dots> = C' ! 0 + (\<Sum>i = 0..<m. C' ! Suc i)"
    by (simp only: sum.atLeast0_lessThan_Suc_shift o_def)
  also have "(\<Sum>i = 0..<m. C' ! Suc i) = (\<Sum>i = 0..<m. C ! Suc i - r * (C ! Suc i - C ! i))"
    using inner by simp
  also have "\<dots> = (\<Sum>i = 0..<m. C ! Suc i) - r * (\<Sum>i = 0..<m. C ! Suc i - C ! i)"
    by (simp only: sum_subtractf sum_distrib_left [symmetric])
  also have "(\<Sum>i = 0..<m. C ! Suc i - C ! i) = C ! m - C ! 0"
    by (rule sum_Suc_diff') simp
  finally have "sum_list C' = (C ! 0 + (\<Sum>i = 0..<m. C ! Suc i)) - r * (C ! m - C ! 0)"
    using left by simp
  also have "C ! 0 + (\<Sum>i = 0..<m. C ! Suc i) = (\<Sum>i = 0..<Suc m. C ! i)"
    by (simp only: sum.atLeast0_lessThan_Suc_shift o_def)
  also have "\<dots> = sum_list C"
    using n by (simp add: sum_list_sum_nth)
  finally have "sum_list C' = sum_list C - U * (dt / dx) * (C ! (length C - 1) - C ! 0)"
    using n by (simp add: r_def)
  with ret len show ?thesis by (rule that)
qed

subsection \<open>The reaction loop\<close>

lemma reaction_fold:
  "fold (\<lambda>t C. reaction_step C k dt) ts C
     = map (\<lambda>c. c * exp (- k * (real (length ts) * dt))) C"
proof (induction ts arbitrary: C)
  case Nil
  show ?case by simp
next
  case (Cons t ts)
  have e: "exp (- k * dt) * exp (- k * (real (length ts) * dt))
          = exp (- k * (real (length (t # ts)) * dt))"
    by (simp add: exp_add [symmetric] algebra_simps)
  have "fold (\<lambda>t C. reaction_step C k dt) (t # ts) C
          = fold (\<lambda>t C. reaction_step C k dt) ts (reaction_step C k dt)"
    by simp
  also have "\<dots> = map (\<lambda>c. c * exp (- k * (real (length ts) * dt))) (reaction_step C k dt)"
    by (rule Cons.IH)
  also have "\<dots> = map (\<lambda>c. c * (exp (- k * dt) * exp (- k * (real (length ts) * dt)))) C"
    by (simp add: reaction_step_def mult.assoc)
  also have "\<dots> = map (\<lambda>c. c * exp (- k * (real (length (t # ts)) * dt))) C"
    by (simp only: e)
  finally show ?case .
qed

lemma length_range_py: "length (range_py 1 (int n + 1)) = n"
  by (simp add: range_py_def)

subsection \<open>Entries of a result, a zero grid spacing, and the exponential\<close>

lemma exp_eq_one_plus_iff:
  fixes x :: real
  shows "exp x = 1 + x \<longleftrightarrow> x = 0"
proof
  assume eq: "exp x = 1 + x"
  show "x = 0"
  proof (rule ccontr)
    assume nz: "x \<noteq> 0"
    have pos: "0 < 1 + x"
      using exp_gt_zero [of x] eq by simp
    have half: "1 + x / 2 \<le> exp (x / 2)"
      by (rule exp_ge_add_one_self)
    have "0 \<le> 1 + x / 2"
      using pos by simp
    with half have "(1 + x / 2) ^ 2 \<le> exp (x / 2) ^ 2"
      by (rule power_mono)
    also have "exp (x / 2) ^ 2 = exp x"
      by (simp add: power2_eq_square exp_add [symmetric])
    finally have "(1 + x / 2) ^ 2 \<le> 1 + x"
      using eq by simp
    moreover have "(1 + x / 2) ^ 2 = 1 + x + x ^ 2 / 4"
      by (simp add: power2_eq_square algebra_simps)
    moreover have "0 < x ^ 2"
      using nz by simp
    ultimately show False
      by simp
  qed
next
  assume "x = 0"
  then show "exp x = 1 + x" by simp
qed

lemma item_nat:
  "i < length xs \<Longrightarrow> item (Inr xs) (int i) = Inr (xs ! i)"
  by (simp add: item_def getitem_nat)

lemma adr_step_dx_zero:
  assumes "3 \<le> length C"
  shows "adr_step C U D k 0 dt = Inl ZeroDivisionError"
proof -
  have "for_loop (range_py 1 (int (length C) - 1)) (adr_body C U D k 0 dt) (zeros_like C)
          = Inl ZeroDivisionError"
    using assms by (intro for_loop_raises) (simp_all add: adr_body_def)
  then show ?thesis
    by (simp add: adr_step_def Let_def)
qed

lemma advection_step_dx_zero:
  assumes "2 \<le> length C"
  shows "advection_step C U 0 dt = Inl ZeroDivisionError"
proof -
  have "for_loop (range_py 1 (int (length C))) (advection_body C U 0 dt) (zeros_like C)
          = Inl ZeroDivisionError"
    using assms by (intro for_loop_raises) (simp_all add: advection_body_def getitem_nat)
  then show ?thesis
    by (simp add: advection_step_def Let_def)
qed

lemma diffusion_step_dx_zero:
  assumes "3 \<le> length C"
  shows "diffusion_step C D 0 dt = Inl ZeroDivisionError"
proof -
  have "for_loop (range_py 1 (int (length C) - 1)) (diffusion_body C D 0 dt) (zeros_like C)
          = Inl ZeroDivisionError"
    using assms by (intro for_loop_raises) (simp_all add: diffusion_body_def getitem_nat)
  then show ?thesis
    by (simp add: diffusion_step_def Let_def)
qed

subsection \<open>A run on the store and the stepper on lists\<close>

lemma h_getitem_old:
  "C < length h0 \<Longrightarrow> h_getitem C i (h0 @ [cn]) = (getitem (h0 ! C) i, h0 @ [cn])"
  by (simp add: h_getitem_def nth_append)

lemma h_setitem_new:
  "h_setitem (length h0) i v (h0 @ [cn])
     = (case setitem cn i v of Inl e \<Rightarrow> (Inl e, h0 @ [cn]) | Inr cn' \<Rightarrow> (Inr (), h0 @ [cn']))"
  by (simp add: h_setitem_def split: sum.splits)

lemma length_setitem: "setitem xs i v = Inr ys \<Longrightarrow> length ys = length xs"
  by (auto simp: setitem_def split: option.splits)

lemma h_for_sim:
  assumes "\<And>i cn. hb i (h0 @ [cn])
             = (case b i cn of Inl e \<Rightarrow> (Inl e, h0 @ [cn]) | Inr cn' \<Rightarrow> (Inr (), h0 @ [cn']))"
  shows "h_for js hb (h0 @ [cn])
           = (case for_loop js b cn of Inl e \<Rightarrow> Inl e | Inr cn' \<Rightarrow> Inr (),
              h0 @ [for_loop_state js b cn])"
proof (induction js arbitrary: cn)
  case Nil
  show ?case by simp
next
  case (Cons j js)
  show ?case
  proof (cases "b j cn")
    case (Inl e)
    then show ?thesis by (simp add: assms)
  next
    case (Inr cn')
    then show ?thesis by (simp add: assms Cons.IH)
  qed
qed

lemma for_loop_state_Inr:
  "for_loop js b s = Inr s' \<Longrightarrow> for_loop_state js b s = s'"
  by (induction js arbitrary: s) (auto split: sum.splits)

lemma length_for_loop_state:
  assumes "\<And>i s s'. b i s = Inr s' \<Longrightarrow> length s' = length s"
  shows "length (for_loop_state js b s) = length s"
proof (induction js arbitrary: s)
  case Nil
  show ?case by simp
next
  case (Cons j js)
  show ?case
  proof (cases "b j s")
    case (Inl e)
    then show ?thesis by simp
  next
    case (Inr s')
    with assms [OF Inr] Cons.IH [of s'] show ?thesis by simp
  qed
qed

lemma h_for_sim':
  assumes "\<And>i cn. hb i (h0 @ [cn])
             = (case b i cn of Inl e \<Rightarrow> (Inl e, h0 @ [cn]) | Inr cn' \<Rightarrow> (Inr (), h0 @ [cn']))"
  shows "h_for js hb (h0 @ [cn])
           = (case for_loop js b cn of
                Inl e \<Rightarrow> (Inl e, h0 @ [for_loop_state js b cn])
              | Inr cn' \<Rightarrow> (Inr (), h0 @ [cn']))"
  using h_for_sim [of hb h0 b js cn, OF assms] for_loop_state_Inr [of js b cn]
  by (simp split: sum.splits)

lemma length_for_loop:
  assumes "\<And>i s s'. b i s = Inr s' \<Longrightarrow> length s' = length s"
    and "for_loop js b s = Inr s'"
  shows "length s' = length s"
  using length_for_loop_state [of b js s, OF assms(1)] for_loop_state_Inr [OF assms(2)]
  by simp

lemma sim_read:
  assumes "C < length h0" and "length cn = n"
    and "\<And>v. sim h0 n (f v (h0 @ [cn])) (g v)"
  shows "sim h0 n (hbnd (h_getitem C i) f (h0 @ [cn])) (bnd (getitem (h0 ! C) i) g)"
proof (cases "getitem (h0 ! C) i")
  case (Inl e)
  then show ?thesis
    using assms(1,2) by (simp add: sim_def hbnd_def h_getitem_old)
next
  case (Inr v)
  then show ?thesis
    using assms(1,3) by (simp add: hbnd_def h_getitem_old)
qed

lemma sim_div:
  assumes "length cn = n"
    and "\<And>v. sim h0 n (f v (h0 @ [cn])) (g v)"
  shows "sim h0 n (hbnd (h_fdiv a b) f (h0 @ [cn])) (bnd (fdiv a b) g)"
proof (cases "fdiv a b")
  case (Inl e)
  then show ?thesis
    using assms(1) by (simp add: sim_def hbnd_def h_fdiv_def)
next
  case (Inr v)
  then show ?thesis
    using assms(2) by (simp add: hbnd_def h_fdiv_def)
qed

lemma sim_write:
  assumes "length cn = n"
    and "\<And>cn'. length cn' = n \<Longrightarrow> sim h0 n (f () (h0 @ [cn'])) (g cn')"
  shows "sim h0 n (hbnd (h_setitem (length h0) i v) f (h0 @ [cn])) (bnd (setitem cn i v) g)"
proof (cases "setitem cn i v")
  case (Inl e)
  then show ?thesis
    using assms(1) by (simp add: sim_def hbnd_def h_setitem_new)
next
  case (Inr cn')
  then have "length cn' = n"
    using assms(1) by (auto dest: length_setitem)
  then show ?thesis
    using Inr assms(2) by (simp add: hbnd_def h_setitem_new)
qed

lemma sim_ret:
  assumes "length cn = n"
  shows "sim h0 n (hret (length h0) (h0 @ [cn])) (Inr cn)"
  using assms by (simp add: sim_def hret_def)

lemma sim_loop:
  assumes body: "\<And>i cn. hb i (h0 @ [cn])
             = (case b i cn of Inl e \<Rightarrow> (Inl e, h0 @ [cn]) | Inr cn' \<Rightarrow> (Inr (), h0 @ [cn']))"
    and len: "\<And>i s s'. b i s = Inr s' \<Longrightarrow> length s' = length s"
    and "length cn = n"
    and rest: "\<And>cn'. length cn' = n \<Longrightarrow> sim h0 n (f () (h0 @ [cn'])) (g cn')"
  shows "sim h0 n (hbnd (h_for js hb) f (h0 @ [cn])) (bnd (for_loop js b cn) g)"
proof (cases "for_loop js b cn")
  case (Inl e)
  have "length (for_loop_state js b cn) = n"
    using length_for_loop_state [of b js cn, OF len] assms(3) by simp
  then show ?thesis
    using Inl by (simp add: sim_def hbnd_def h_for_sim' [of hb h0 b, OF body])
next
  case (Inr cn')
  have "length cn' = n"
    using length_for_loop [of b js cn cn', OF len Inr] assms(3) by simp
  then show ?thesis
    using Inr rest by (simp add: hbnd_def h_for_sim' [of hb h0 b, OF body])
qed

lemma advection_body_h_sim:
  assumes "C < length h0"
  shows "advection_body_h C (length h0) U dx dt i (h0 @ [cn])
           = (case advection_body (h0 ! C) U dx dt i cn of
                Inl e \<Rightarrow> (Inl e, h0 @ [cn]) | Inr cn' \<Rightarrow> (Inr (), h0 @ [cn']))"
  using assms
  by (simp add: advection_body_h_def advection_body_def hbnd_def bnd_def h_getitem_old
      h_setitem_new h_fdiv_def split: sum.splits)

lemma length_advection_body:
  "advection_body C U dx dt i s = Inr s' \<Longrightarrow> length s' = length s"
  by (auto simp: advection_body_def bnd_def split: sum.splits dest: length_setitem)

lemma advection_step_h_sim:
  assumes "C < length h0"
  shows "sim h0 (length (h0 ! C)) (advection_step_h C U dx dt h0) (advection_step (h0 ! C) U dx dt)"
proof -
  have start: "advection_step_h C U dx dt h0
     = hbnd (h_for (range_py 1 (int (length (h0 ! C)))) (advection_body_h C (length h0) U dx dt)) (\<lambda>u.
       hbnd (h_getitem C 0) (\<lambda>c0.
       hbnd (h_setitem (length h0) 0 c0) (\<lambda>u.
       hret (length h0)))) (h0 @ [zeros_like (h0 ! C)])"
    by (simp add: advection_step_h_def hbnd_def h_len_def h_zeros_like_def)
  show ?thesis
    unfolding start advection_step_def Let_def
    by (intro sim_loop [OF advection_body_h_sim [OF assms] length_advection_body]
        sim_read [OF assms] sim_div sim_write sim_ret) simp_all
qed

lemma diffusion_body_h_sim:
  assumes "C < length h0"
  shows "diffusion_body_h C (length h0) D dx dt i (h0 @ [cn])
           = (case diffusion_body (h0 ! C) D dx dt i cn of
                Inl e \<Rightarrow> (Inl e, h0 @ [cn]) | Inr cn' \<Rightarrow> (Inr (), h0 @ [cn']))"
  using assms
  by (simp add: diffusion_body_h_def diffusion_body_def hbnd_def bnd_def h_getitem_old
      h_setitem_new h_fdiv_def split: sum.splits)

lemma length_diffusion_body:
  "diffusion_body C D dx dt i s = Inr s' \<Longrightarrow> length s' = length s"
  by (auto simp: diffusion_body_def bnd_def split: sum.splits dest: length_setitem)

lemma diffusion_step_h_sim:
  assumes "C < length h0"
  shows "sim h0 (length (h0 ! C)) (diffusion_step_h C D dx dt h0) (diffusion_step (h0 ! C) D dx dt)"
proof -
  have start: "diffusion_step_h C D dx dt h0
     = hbnd (h_for (range_py 1 (int (length (h0 ! C)) - 1)) (diffusion_body_h C (length h0) D dx dt)) (\<lambda>u.
     hbnd (h_getitem C 0) (\<lambda>c.
     hbnd (h_fdiv dt (dx ^ 2)) (\<lambda>r.
     hbnd (h_getitem C 1) (\<lambda>d0.
     hbnd (h_getitem C 0) (\<lambda>d1.
     hbnd (h_setitem (length h0) 0 (c + D * r * (d0 - d1))) (\<lambda>u.
     hbnd (h_getitem C (int (length (h0 ! C)) - 1)) (\<lambda>c.
     hbnd (h_fdiv dt (dx ^ 2)) (\<lambda>r.
     hbnd (h_getitem C (int (length (h0 ! C)) - 2)) (\<lambda>d0.
     hbnd (h_getitem C (int (length (h0 ! C)) - 1)) (\<lambda>d1.
     hbnd (h_setitem (length h0) (int (length (h0 ! C)) - 1) (c + D * r * (d0 - d1))) (\<lambda>u.
     hret (length h0)))))))))))) (h0 @ [zeros_like (h0 ! C)])"
    by (simp add: diffusion_step_h_def hbnd_def h_len_def h_zeros_like_def)
  show ?thesis
    unfolding start diffusion_step_def Let_def
    by (intro sim_loop [OF diffusion_body_h_sim [OF assms] length_diffusion_body]
        sim_read [OF assms] sim_div sim_write sim_ret) simp_all
qed

lemma adr_body_h_sim:
  assumes "C < length h0"
  shows "adr_body_h C (length h0) U D k dx dt i (h0 @ [cn])
           = (case adr_body (h0 ! C) U D k dx dt i cn of
                Inl e \<Rightarrow> (Inl e, h0 @ [cn]) | Inr cn' \<Rightarrow> (Inr (), h0 @ [cn']))"
  using assms
  by (simp add: adr_body_h_def adr_body_def hbnd_def bnd_def h_getitem_old
      h_setitem_new h_fdiv_def Let_def split: sum.splits)

lemma length_adr_body:
  "adr_body C U D k dx dt i s = Inr s' \<Longrightarrow> length s' = length s"
  by (auto simp: adr_body_def bnd_def Let_def split: sum.splits dest: length_setitem)

lemma adr_step_h_sim:
  assumes "C < length h0"
  shows "sim h0 (length (h0 ! C)) (adr_step_h C U D k dx dt h0) (adr_step (h0 ! C) U D k dx dt)"
proof -
  have start: "adr_step_h C U D k dx dt h0
     = hbnd (h_for (range_py 1 (int (length (h0 ! C)) - 1)) (adr_body_h C (length h0) U D k dx dt)) (\<lambda>u.
     hbnd (h_getitem C 0) (\<lambda>c.
     hbnd (h_setitem (length h0) 0 c) (\<lambda>u.
     hbnd (h_getitem C (int (length (h0 ! C)) - 2)) (\<lambda>c.
     hbnd (h_setitem (length h0) (int (length (h0 ! C)) - 1) c) (\<lambda>u.
     hret (length h0)))))) (h0 @ [zeros_like (h0 ! C)])"
    by (simp add: adr_step_h_def hbnd_def h_len_def h_zeros_like_def)
  show ?thesis
    unfolding start adr_step_def Let_def
    by (intro sim_loop [OF adr_body_h_sim [OF assms] length_adr_body]
        sim_read [OF assms] sim_div sim_write sim_ret) simp_all
qed

lemma reaction_step_h_sim:
  "sim h0 (length (h0 ! C)) (reaction_step_h C k dt h0) (Inr (reaction_step (h0 ! C) k dt))"
  by (simp add: sim_def reaction_step_h_def h_scale_def reaction_step_def)

lemma sim_fresh_call:
  assumes "C < length h" and "sim h (length (h ! C)) x pr"
  shows "fresh_call h C x"
  using assms by (auto simp: sim_def fresh_call_def nth_append split: sum.splits)

lemma sim_returns:
  assumes "sim h n x (Inr C')"
  shows "x = (Inr (length h), h @ [C'])"
  using assms by (auto simp: sim_def)

section \<open>The claims\<close>

text \<open>
  C7. For a profile \<open>C\<close> of length \<open>N \<ge> 1\<close> and \<open>dx > 0\<close>, the advection stepper
  returns a profile of the same length in which every point \<open>i \<ge> 1\<close>, the rightmost
  one included, is \<open>C[i] - U*(dt/dx)*(C[i] - C[i-1])\<close> and point \<open>0\<close> keeps its old value.
\<close>

theorem advection_step_upwind:
  assumes "C \<noteq> []" and "0 < dx"
  shows "\<exists>C'. advection_step C U dx dt = Inr C' \<and> length C' = length C
           \<and> C' ! 0 = C ! 0
           \<and> (\<forall>i. 1 \<le> i \<and> i < length C \<longrightarrow>
                  C' ! i = C ! i - U * (dt / dx) * (C ! i - C ! (i - 1)))"
proof -
  from assms have "dx \<noteq> 0" by simp
  from advection_step_nth [OF assms(1) this, of U dt] show ?thesis
    by metis
qed

theorem advection_step_upwind_witness:
  "([1, 2, 4] :: real list) \<noteq> [] \<and> (0 :: real) < 1
   \<and> (\<exists>C'. advection_step [1, 2, 4] 1 1 (1 / 2) = Inr C' \<and> length C' = 3
          \<and> C' ! 0 = 1 \<and> C' ! 1 = 3 / 2 \<and> C' ! 2 = 3)"
proof -
  from advection_step_upwind [of "[1, 2, 4]" 1 1 "1 / 2"]
  obtain C' where ret: "advection_step [1, 2, 4] 1 1 (1 / 2) = Inr C'"
    and len: "length C' = 3" and left: "C' ! 0 = 1"
    and pts: "\<forall>i. 1 \<le> i \<and> i < 3 \<longrightarrow>
               C' ! i = [1, 2, 4] ! i - 1 * (1 / 2 / 1) * ([1, 2, 4] ! i - [1, 2, 4] ! (i - 1))"
    by auto
  from pts [rule_format, of 1] pts [rule_format, of 2]
  have "C' ! 1 = 3 / 2" and "C' ! 2 = 3"
    by simp_all
  with ret len left show ?thesis by simp
qed

text \<open>
  C1. For a profile \<open>C\<close> of length \<open>N \<ge> 3\<close> and \<open>dx > 0\<close>, the combined stepper
  returns a profile of length \<open>N\<close> whose interior points \<open>1 \<le> i \<le> N - 2\<close> are
  \<open>C[i] + (-U*(dt/dx)*(C[i]-C[i-1])) + (D*(dt/dx^2)*(C[i+1]-2*C[i]+C[i-1])) + (-k*dt*C[i])\<close>,
  whose left end is \<open>C[0]\<close> and whose right end is \<open>C[N-2]\<close>.
\<close>

theorem adr_step_points:
  assumes "3 \<le> length C" and "0 < dx"
  shows "\<exists>C'. adr_step C U D k dx dt = Inr C' \<and> length C' = length C
           \<and> (\<forall>i. 1 \<le> i \<and> i \<le> length C - 2 \<longrightarrow>
                  C' ! i = C ! i + (- U * (dt / dx) * (C ! i - C ! (i - 1)))
                             + (D * (dt / dx ^ 2) * (C ! (i + 1) - 2 * C ! i + C ! (i - 1)))
                             + (- k * dt * C ! i))
           \<and> C' ! 0 = C ! 0
           \<and> C' ! (length C - 1) = C ! (length C - 2)"
proof -
  have "2 \<le> length C" and "dx \<noteq> 0"
    using assms by simp_all
  from adr_step_nth [OF this, of U D k dt]
  obtain C' where ret: "adr_step C U D k dx dt = Inr C'" and len: "length C' = length C"
    and left: "C' ! 0 = C ! 0" and right: "C' ! (length C - 1) = C ! (length C - 2)"
    and pts: "\<And>i. 1 \<le> i \<Longrightarrow> i + 1 < length C \<Longrightarrow>
            C' ! i = C ! i + - U * (dt / dx) * (C ! i - C ! (i - 1))
                       + D * (dt / dx ^ 2) * (C ! (i + 1) - 2 * C ! i + C ! (i - 1))
                       + - k * dt * C ! i"
    by blast
  have "C' ! i = C ! i + (- U * (dt / dx) * (C ! i - C ! (i - 1)))
                             + (D * (dt / dx ^ 2) * (C ! (i + 1) - 2 * C ! i + C ! (i - 1)))
                             + (- k * dt * C ! i)"
    if "1 \<le> i \<and> i \<le> length C - 2" for i
  proof -
    have "i + 1 < length C" using that assms(1) by linarith
    with that show ?thesis using pts [of i] by simp
  qed
  with ret len left right show ?thesis by blast
qed

theorem adr_step_points_witness:
  "3 \<le> length ([1, 2, 4, 8] :: real list) \<and> (0 :: real) < 1
   \<and> adr_step [1, 2, 4, 8] 1 1 1 1 (1 / 4) = Inr [1, 3 / 2, 3, 4]"
proof -
  have run: "adr_step [1, 2, 4, 8] 1 1 1 1 (1 / 4) = Inr [1, 3 / 2, 3, 4]"
    by code_simp
  from adr_step_points [of "[1, 2, 4, 8]" 1 1 1 1 "1 / 4"]
  obtain C' where "adr_step [1, 2, 4, 8] 1 1 1 1 (1 / 4) = Inr C'"
    and "\<forall>i. 1 \<le> i \<and> i \<le> length ([1, 2, 4, 8] :: real list) - 2 \<longrightarrow>
             C' ! i = [1, 2, 4, 8] ! i + (- 1 * (1 / 4 / 1) * ([1, 2, 4, 8] ! i - [1, 2, 4, 8] ! (i - 1)))
                             + (1 * (1 / 4 / 1 ^ 2) * ([1, 2, 4, 8] ! (i + 1) - 2 * [1, 2, 4, 8] ! i + [1, 2, 4, 8] ! (i - 1)))
                             + (- 1 * (1 / 4) * [1, 2, 4, 8] ! i)"
    by auto
  with run show ?thesis by simp
qed

text \<open>
  C3. For a profile of length \<open>N \<ge> 3\<close> and \<open>D > 0\<close>, \<open>dx > 0\<close>, \<open>dt > 0\<close>, one
  diffusion step returns a profile with exactly the same sum of entries, hence the same
  total mass \<open>dx * sum\<close>.
\<close>

theorem diffusion_step_conserves_mass:
  assumes "3 \<le> length C" and "0 < D" and "0 < dx" and "0 < dt"
  shows "\<exists>C'. diffusion_step C D dx dt = Inr C' \<and> length C' = length C
           \<and> sum_list C' = sum_list C \<and> dx * sum_list C' = dx * sum_list C"
proof -
  have "2 \<le> length C" and "dx \<noteq> 0"
    using assms by simp_all
  from diffusion_step_sum [OF this, of D dt] show ?thesis
    by metis
qed

theorem diffusion_step_conserves_mass_witness:
  "3 \<le> length ([1, 2, 4] :: real list) \<and> (0 :: real) < 1 \<and> (0 :: real) < 1 / 4
   \<and> diffusion_step [1, 2, 4] 1 1 (1 / 4) = Inr [5 / 4, 9 / 4, 7 / 2]
   \<and> sum_list [5 / 4, 9 / 4, 7 / 2 :: real] = sum_list [1, 2, 4]"
proof -
  have run: "diffusion_step [1, 2, 4] 1 1 (1 / 4) = Inr [5 / 4, 9 / 4, 7 / 2]"
    by code_simp
  from diffusion_step_conserves_mass [of "[1, 2, 4]" 1 1 "1 / 4"]
  obtain C' where "diffusion_step [1, 2, 4] 1 1 (1 / 4) = Inr C'"
    and "sum_list C' = sum_list [1, 2, 4]"
    by auto
  with run show ?thesis by simp
qed

text \<open>
  C4, as stated, fails: one advection step on \<open>[0, 0, 1]\<close> with \<open>U = 1\<close>, \<open>dx = 1\<close>,
  \<open>dt = 1/2\<close> returns \<open>[0, 0, 1/2]\<close>, and half of the mass has left through the right end.
\<close>

theorem advection_step_mass_counterexample:
  "3 \<le> length ([0, 0, 1] :: real list) \<and> (0 :: real) < 1 \<and> (0 :: real) < 1 / 2
   \<and> advection_step [0, 0, 1] 1 1 (1 / 2) = Inr [0, 0, 1 / 2]
   \<and> sum_list [0, 0, 1 / 2 :: real] \<noteq> sum_list [0, 0, 1]"
proof -
  have "advection_step [0, 0, 1] 1 1 (1 / 2) = Inr [0, 0, 1 / 2]"
    by code_simp
  then show ?thesis by simp
qed

text \<open>
  C4, amended. For a profile of length \<open>N \<ge> 3\<close> and \<open>U > 0\<close>, \<open>dx > 0\<close>, \<open>dt > 0\<close>,
  one advection step changes the sum of the entries by the flux through the two ends:
  \<open>sum(C_new) = sum(C) - U*(dt/dx)*(C[N-1] - C[0])\<close>. The sum is unchanged exactly when
  \<open>C[N-1] = C[0]\<close>.
\<close>

theorem advection_step_mass_flux:
  assumes "3 \<le> length C" and "0 < U" and "0 < dx" and "0 < dt"
  shows "\<exists>C'. advection_step C U dx dt = Inr C' \<and> length C' = length C
           \<and> sum_list C' = sum_list C - U * (dt / dx) * (C ! (length C - 1) - C ! 0)
           \<and> (sum_list C' = sum_list C \<longleftrightarrow> C ! (length C - 1) = C ! 0)"
proof -
  have "C \<noteq> []" and "dx \<noteq> 0"
    using assms by auto
  from advection_step_sum [OF this, of U dt]
  obtain C' where ret: "advection_step C U dx dt = Inr C'" and len: "length C' = length C"
    and flux: "sum_list C' = sum_list C - U * (dt / dx) * (C ! (length C - 1) - C ! 0)"
    by blast
  have "0 < U * (dt / dx)"
    using assms by simp
  with flux have "sum_list C' = sum_list C \<longleftrightarrow> C ! (length C - 1) = C ! 0"
    by auto
  with ret len flux show ?thesis by blast
qed

theorem advection_step_mass_flux_witness:
  "3 \<le> length ([1, 2, 4] :: real list) \<and> (0 :: real) < 1 \<and> (0 :: real) < 1 / 2
   \<and> advection_step [1, 2, 4] 1 1 (1 / 2) = Inr [1, 3 / 2, 3]
   \<and> sum_list [1, 3 / 2, 3 :: real] = sum_list [1, 2, 4] - 1 * (1 / 2 / 1) * (4 - 1)"
proof -
  have run: "advection_step [1, 2, 4] 1 1 (1 / 2) = Inr [1, 3 / 2, 3]"
    by code_simp
  from advection_step_mass_flux [of "[1, 2, 4]" 1 1 "1 / 2"]
  obtain C' where "advection_step [1, 2, 4] 1 1 (1 / 2) = Inr C'"
    and "sum_list C' = sum_list [1, 2, 4] - 1 * (1 / 2 / 1) * ([1, 2, 4] ! (length [1, 2, 4 :: real] - 1) - [1, 2, 4] ! 0)"
    by auto
  with run show ?thesis by simp
qed

text \<open>
  C10. For a non-empty profile with non-negative entries, \<open>dx \<noteq> 0\<close> and a Courant number
  \<open>0 \<le> U*dt/dx \<le> 1\<close>, one advection step returns a profile with non-negative entries:
  point \<open>0\<close> keeps \<open>C[0]\<close> and every point \<open>i \<ge> 1\<close> is the convex combination
  \<open>(1 - U*dt/dx)*C[i] + (U*dt/dx)*C[i-1]\<close>.
\<close>

theorem advection_step_nonnegative:
  assumes "C \<noteq> []" and "dx \<noteq> 0" and "\<forall>c\<in>set C. 0 \<le> c"
    and "0 \<le> U * dt / dx" and "U * dt / dx \<le> 1"
  shows "\<exists>C'. advection_step C U dx dt = Inr C' \<and> length C' = length C
           \<and> (\<forall>c\<in>set C'. 0 \<le> c)
           \<and> C' ! 0 = C ! 0
           \<and> (\<forall>i. 1 \<le> i \<and> i < length C \<longrightarrow>
                  C' ! i = (1 - U * dt / dx) * C ! i + (U * dt / dx) * C ! (i - 1))"
proof -
  from advection_step_nth [OF assms(1,2), of U dt]
  obtain C' where ret: "advection_step C U dx dt = Inr C'" and len: "length C' = length C"
    and left: "C' ! 0 = C ! 0"
    and pts: "\<And>i. 1 \<le> i \<Longrightarrow> i < length C \<Longrightarrow>
                C' ! i = C ! i - U * (dt / dx) * (C ! i - C ! (i - 1))"
    by blast
  have conv: "C' ! i = (1 - U * dt / dx) * C ! i + (U * dt / dx) * C ! (i - 1)"
    if "1 \<le> i" "i < length C" for i
    using pts [OF that] by (simp add: algebra_simps)
  have nonneg: "0 \<le> C ! i" if "i < length C" for i
    using assms(3) that by simp
  have "0 \<le> C' ! i" if "i < length C'" for i
  proof (cases "i = 0")
    case True
    with left nonneg [of 0] assms(1) show ?thesis by simp
  next
    case False
    with that len have i: "1 \<le> i" "i < length C" by simp_all
    have "0 \<le> 1 - U * dt / dx"
      using assms(5) by simp
    then have "0 \<le> (1 - U * dt / dx) * C ! i"
      using nonneg [OF i(2)] by (rule mult_nonneg_nonneg)
    moreover have "0 \<le> C ! (i - 1)"
      using nonneg [of "i - 1"] i by simp
    with assms(4) have "0 \<le> (U * dt / dx) * C ! (i - 1)"
      by (rule mult_nonneg_nonneg)
    ultimately show ?thesis
      using conv [OF i] by simp
  qed
  then have "\<forall>c\<in>set C'. 0 \<le> c"
    by (auto simp: in_set_conv_nth)
  with ret len left conv show ?thesis by blast
qed

theorem advection_step_nonnegative_witness:
  "([1, 2, 4] :: real list) \<noteq> [] \<and> (1 :: real) \<noteq> 0 \<and> list_all (\<lambda>c. 0 \<le> c) [1, 2, 4 :: real]
   \<and> (0 :: real) \<le> 1 * (1 / 2) / 1 \<and> (1 :: real) * (1 / 2) / 1 \<le> 1
   \<and> advection_step [1, 2, 4] 1 1 (1 / 2) = Inr [1, 3 / 2, 3]
   \<and> list_all (\<lambda>c. 0 \<le> c) [1, 3 / 2, 3 :: real]"
proof -
  have run: "advection_step [1, 2, 4] 1 1 (1 / 2) = Inr [1, 3 / 2, 3]"
    by code_simp
  from advection_step_nonnegative [of "[1, 2, 4]" 1 1 "1 / 2"]
  obtain C' where "advection_step [1, 2, 4] 1 1 (1 / 2) = Inr C'" and "\<forall>c\<in>set C'. 0 \<le> c"
    by auto
  with run show ?thesis by simp
qed

text \<open>
  C5. For every initial profile \<open>C0\<close>, every \<open>k\<close> and \<open>dt\<close> (in particular \<open>k > 0\<close>,
  \<open>dt > 0\<close>) and every step count \<open>n \<ge> 0\<close>, the reaction loop run for \<open>n\<close> steps
  yields \<open>C0[i] * exp(-k * (n * dt))\<close> at every grid point.
\<close>

theorem reaction_steps_exact:
  "simulate_reaction_loop C0 k dt n = map (\<lambda>c. c * exp (- k * (real n * dt))) C0"
proof -
  have "simulate_reaction_loop C0 k dt n
          = fold (\<lambda>t C. reaction_step C k dt) (range_py 1 (int n + 1)) C0"
    by (simp only: simulate_reaction_loop_def)
  also have "\<dots> = map (\<lambda>c. c * exp (- k * (real (length (range_py 1 (int n + 1))) * dt))) C0"
    by (rule reaction_fold)
  also have "length (range_py 1 (int n + 1)) = n"
    by (rule length_range_py)
  finally show ?thesis .
qed

text \<open>
  C8. For \<open>time \<ge> 0\<close>, \<open>sigma_0 > 0\<close> and a diffusion coefficient \<open>\<ge> 0\<close>, the analytic
  profile is the Gaussian of width \<open>sigma(t) = sqrt(sigma_0^2 + 2*D*t)\<close> and amplitude
  \<open>sigma_0 / sigma(t)\<close>; at \<open>time = 0\<close> it is the initial pulse, and the product of width
  and amplitude is \<open>sigma_0\<close> at every time.
\<close>

theorem pure_diffusion_gaussian:
  assumes "0 \<le> time" and "0 < sigma_0" and "0 \<le> diffusion"
  shows "C_t x mu sigma_0 diffusion time
           = map (\<lambda>xi. (sigma_0 / sqrt (sigma_0 ^ 2 + 2 * diffusion * time))
                    * exp (- 0.5 * ((xi - mu) / sqrt (sigma_0 ^ 2 + 2 * diffusion * time)) ^ 2)) x
         \<and> C_t x mu sigma_0 diffusion 0 = C_0 x mu sigma_0
         \<and> 0 < sigma_t sigma_0 diffusion time
         \<and> sigma_t sigma_0 diffusion time * amplitude sigma_0 diffusion time = sigma_0
         \<and> sigma_t sigma_0 diffusion time * amplitude sigma_0 diffusion time
             = sigma_t sigma_0 diffusion 0 * amplitude sigma_0 diffusion 0"
proof -
  have pos: "0 < sigma_0 ^ 2 + 2 * diffusion * time"
    using assms by (simp add: add_pos_nonneg)
  then have st: "0 < sigma_t sigma_0 diffusion time"
    by (simp add: sigma_t_def)
  have s0: "sigma_t sigma_0 diffusion 0 = sigma_0"
    using assms(2) by (simp add: sigma_t_def)
  have a0: "amplitude sigma_0 diffusion 0 = 1"
    using assms(2) by (simp add: amplitude_def s0)
  have prod: "sigma_t sigma_0 diffusion time * amplitude sigma_0 diffusion time = sigma_0"
    using st by (simp add: amplitude_def)
  have "C_t x mu sigma_0 diffusion 0 = C_0 x mu sigma_0"
    by (simp add: C_t_def C_0_def s0 a0)
  moreover have "C_t x mu sigma_0 diffusion time
           = map (\<lambda>xi. (sigma_0 / sqrt (sigma_0 ^ 2 + 2 * diffusion * time))
                    * exp (- 0.5 * ((xi - mu) / sqrt (sigma_0 ^ 2 + 2 * diffusion * time)) ^ 2)) x"
    by (simp add: C_t_def amplitude_def sigma_t_def)
  ultimately show ?thesis
    using st prod s0 a0 by simp
qed

theorem pure_diffusion_gaussian_witness:
  "(0 :: real) \<le> 12 \<and> (0 :: real) < 5 \<and> (0 :: real) \<le> 1
   \<and> sigma_t 5 1 12 = 7 \<and> amplitude 5 1 12 = 5 / 7
   \<and> C_t [50] 50 5 1 12 = [5 / 7]
   \<and> C_t [50] 50 5 1 0 = C_0 [50] 50 5"
proof -
  have "sqrt ((7 :: real) ^ 2) = \<bar>7\<bar>"
    by (rule real_sqrt_abs)
  then have "sqrt 49 = (7 :: real)"
    by simp
  then have s: "sigma_t 5 1 12 = 7"
    by (simp add: sigma_t_def)
  have a: "amplitude 5 1 12 = 5 / 7"
    by (simp add: amplitude_def s)
  from pure_diffusion_gaussian [of 12 5 1 "[50]" 50]
  have "C_t [50] 50 5 1 0 = C_0 [50] 50 5"
    by simp
  moreover have "C_t [50] 50 5 1 12 = [5 / 7]"
    by (simp add: C_t_def s a)
  ultimately show ?thesis
    using s a by simp
qed

text \<open>
  C2, as stated, fails in its reaction part: on \<open>[1, 1, 1]\<close> with \<open>k = 1\<close>, \<open>dt = 1\<close>,
  \<open>dx = 1\<close> the combined stepper with \<open>U = 0\<close>, \<open>D = 0\<close> stores \<open>1 - k*dt = 0\<close> at the
  interior point, where the reaction stepper returns \<open>exp(-1)\<close>.
\<close>

theorem adr_step_reaction_counterexample:
  "item (adr_step [1, 1, 1] 0 0 1 1 1) 1 = Inr 0
   \<and> item (Inr (reaction_step [1, 1, 1] 1 1)) 1 = Inr (exp (- 1))
   \<and> item (adr_step [1, 1, 1] 0 0 1 1 1) 1 \<noteq> item (Inr (reaction_step [1, 1, 1] 1 1)) 1"
proof -
  have adr: "adr_step [1, 1, 1] 0 0 1 1 1 = Inr [1, 0, 1]"
    by code_simp
  have l: "item (adr_step [1, 1, 1] 0 0 1 1 1) 1 = Inr 0"
    unfolding adr using item_nat [of 1 "[1, 0, 1]"] by simp
  have r: "item (Inr (reaction_step [1, 1, 1] 1 1)) 1 = Inr (exp (- 1))"
    using item_nat [of 1 "reaction_step [1, 1, 1] 1 1"] by (simp add: reaction_step_def)
  have "exp (- 1) \<noteq> (0 :: real)"
    by simp
  with l r show ?thesis by simp
qed

text \<open>
  C2, amended. At every interior point \<open>1 \<le> i \<le> N - 2\<close> of every profile,
  \<open>adr_step(C, U, 0, 0, dx, dt)[i] = advection_step(C, U, dx, dt)[i]\<close> and
  \<open>adr_step(C, 0, D, 0, dx, dt)[i] = diffusion_step(C, D, dx, dt)[i]\<close> (both sides raise
  \<open>ZeroDivisionError\<close> when \<open>dx = 0\<close>). With \<open>U = 0\<close>, \<open>D = 0\<close> and \<open>dx \<noteq> 0\<close> the
  combined stepper gives \<open>C[i] * (1 - k*dt)\<close>, the reaction stepper
  \<open>C[i] * exp(-k*dt)\<close>, and the two are equal exactly when \<open>C[i] = 0\<close> or \<open>k*dt = 0\<close>.
\<close>

theorem adr_step_reductions:
  assumes "1 \<le> i" and "i \<le> length C - 2"
  shows "item (adr_step C U 0 0 dx dt) (int i) = item (advection_step C U dx dt) (int i)
       \<and> item (adr_step C 0 D 0 dx dt) (int i) = item (diffusion_step C D dx dt) (int i)
       \<and> (dx \<noteq> 0 \<longrightarrow> item (advection_step C U dx dt) (int i)
                          = Inr (C ! i - U * (dt / dx) * (C ! i - C ! (i - 1))))
       \<and> (dx \<noteq> 0 \<longrightarrow> item (diffusion_step C D dx dt) (int i)
                          = Inr (C ! i + D * (dt / dx ^ 2) * (C ! (i + 1) - 2 * C ! i + C ! (i - 1))))
       \<and> (dx \<noteq> 0 \<longrightarrow> item (adr_step C 0 0 k dx dt) (int i) = Inr (C ! i * (1 - k * dt)))
       \<and> item (Inr (reaction_step C k dt)) (int i) = Inr (C ! i * exp (- k * dt))
       \<and> (dx \<noteq> 0 \<longrightarrow>
            (item (adr_step C 0 0 k dx dt) (int i) = item (Inr (reaction_step C k dt)) (int i)
               \<longleftrightarrow> C ! i = 0 \<or> k * dt = 0))"
proof -
  have n3: "3 \<le> length C" and n2: "2 \<le> length C" and ne: "C \<noteq> []"
    and i1: "i + 1 < length C" and i0: "i < length C"
    using assms by auto
  have react: "item (Inr (reaction_step C k dt)) (int i) = Inr (C ! i * exp (- k * dt))"
    using i0 item_nat [of i "reaction_step C k dt"] by (simp add: reaction_step_def)
  show ?thesis
  proof (cases "dx = 0")
    case True
    then show ?thesis
      using react
      by (simp add: adr_step_dx_zero [OF n3] advection_step_dx_zero [OF n2]
          diffusion_step_dx_zero [OF n3] item_def)
  next
    case False
    obtain A where A: "adr_step C U 0 0 dx dt = Inr A" "length A = length C"
      "A ! i = C ! i + - U * (dt / dx) * (C ! i - C ! (i - 1))
                 + 0 * (dt / dx ^ 2) * (C ! (i + 1) - 2 * C ! i + C ! (i - 1)) + - 0 * dt * C ! i"
      using adr_step_nth [OF n2 False, of U 0 0 dt] assms(1) i1 by metis
    obtain B where B: "adr_step C 0 D 0 dx dt = Inr B" "length B = length C"
      "B ! i = C ! i + - 0 * (dt / dx) * (C ! i - C ! (i - 1))
                 + D * (dt / dx ^ 2) * (C ! (i + 1) - 2 * C ! i + C ! (i - 1)) + - 0 * dt * C ! i"
      using adr_step_nth [OF n2 False, of 0 D 0 dt] assms(1) i1 by metis
    obtain R where R: "adr_step C 0 0 k dx dt = Inr R" "length R = length C"
      "R ! i = C ! i + - 0 * (dt / dx) * (C ! i - C ! (i - 1))
                 + 0 * (dt / dx ^ 2) * (C ! (i + 1) - 2 * C ! i + C ! (i - 1)) + - k * dt * C ! i"
      using adr_step_nth [OF n2 False, of 0 0 k dt] assms(1) i1 by metis
    obtain V where V: "advection_step C U dx dt = Inr V" "length V = length C"
      "V ! i = C ! i - U * (dt / dx) * (C ! i - C ! (i - 1))"
      using advection_step_nth [OF ne False, of U dt] assms(1) i0 by metis
    obtain F where F: "diffusion_step C D dx dt = Inr F" "length F = length C"
      "F ! i = C ! i + D * (dt / dx ^ 2) * (C ! (i + 1) - 2 * C ! i + C ! (i - 1))"
      using diffusion_step_nth [OF n2 False, of D dt] assms(1) i1 by metis
    have a: "item (adr_step C U 0 0 dx dt) (int i) = Inr (C ! i - U * (dt / dx) * (C ! i - C ! (i - 1)))"
      using A i0 item_nat [of i A] by simp
    have v: "item (advection_step C U dx dt) (int i) = Inr (C ! i - U * (dt / dx) * (C ! i - C ! (i - 1)))"
      using V i0 item_nat [of i V] by simp
    have b: "item (adr_step C 0 D 0 dx dt) (int i)
               = Inr (C ! i + D * (dt / dx ^ 2) * (C ! (i + 1) - 2 * C ! i + C ! (i - 1)))"
      using B i0 item_nat [of i B] by simp
    have f: "item (diffusion_step C D dx dt) (int i)
               = Inr (C ! i + D * (dt / dx ^ 2) * (C ! (i + 1) - 2 * C ! i + C ! (i - 1)))"
      using F i0 item_nat [of i F] by simp
    have r: "item (adr_step C 0 0 k dx dt) (int i) = Inr (C ! i * (1 - k * dt))"
      using R i0 item_nat [of i R] by (simp add: algebra_simps)
    have "C ! i * (1 - k * dt) = C ! i * exp (- k * dt) \<longleftrightarrow> C ! i = 0 \<or> k * dt = 0"
      using exp_eq_one_plus_iff [of "- (k * dt)"] by auto
    then have iff: "item (adr_step C 0 0 k dx dt) (int i) = item (Inr (reaction_step C k dt)) (int i)
               \<longleftrightarrow> C ! i = 0 \<or> k * dt = 0"
      by (simp only: r react sum.inject)
    show ?thesis
      using a v b f r react iff by simp
  qed
qed

theorem adr_step_reductions_witness:
  "(1 :: nat) \<le> 1 \<and> (1 :: nat) \<le> length ([1, 2, 4] :: real list) - 2
   \<and> item (adr_step [1, 2, 4] 1 0 0 1 (1 / 4)) 1 = Inr (7 / 4)
   \<and> item (advection_step [1, 2, 4] 1 1 (1 / 4)) 1 = Inr (7 / 4)
   \<and> item (adr_step [1, 2, 4] 0 1 0 1 (1 / 4)) 1 = Inr (9 / 4)
   \<and> item (diffusion_step [1, 2, 4] 1 1 (1 / 4)) 1 = Inr (9 / 4)
   \<and> item (adr_step [1, 2, 4] 0 0 1 1 (1 / 4)) 1 = Inr (3 / 2)
   \<and> item (Inr (reaction_step [1, 2, 4] 1 (1 / 4))) 1 = Inr (2 * exp (- (1 / 4)))"
  using adr_step_reductions [of 1 "[1, 2, 4]" 1 1 "1 / 4" 1 1]
  by simp

text \<open>
  C9. A call of any of the four steppers on the array at position \<open>C\<close> of a store leaves
  every array of the store as it was, the input among them, whether it returns or raises;
  what it returns is the position of a newly allocated array of the length \<open>N\<close> of the
  input. The reaction stepper always returns, and the other three return whenever
  \<open>N \<ge> 3\<close> and \<open>dx \<noteq> 0\<close>.
\<close>

theorem steppers_leave_input:
  assumes "C < length h"
  shows "fresh_call h C (advection_step_h C U dx dt h)
       \<and> fresh_call h C (diffusion_step_h C D dx dt h)
       \<and> fresh_call h C (reaction_step_h C k dt h)
       \<and> fresh_call h C (adr_step_h C U D k dx dt h)
       \<and> fst (reaction_step_h C k dt h) = Inr (length h)
       \<and> (3 \<le> length (h ! C) \<and> dx \<noteq> 0 \<longrightarrow>
            fst (advection_step_h C U dx dt h) = Inr (length h)
          \<and> fst (diffusion_step_h C D dx dt h) = Inr (length h)
          \<and> fst (adr_step_h C U D k dx dt h) = Inr (length h))"
proof -
  have frame: "fresh_call h C (advection_step_h C U dx dt h)"
    "fresh_call h C (diffusion_step_h C D dx dt h)"
    "fresh_call h C (reaction_step_h C k dt h)"
    "fresh_call h C (adr_step_h C U D k dx dt h)"
    using assms
    by (blast intro: sim_fresh_call advection_step_h_sim diffusion_step_h_sim
        reaction_step_h_sim adr_step_h_sim)+
  have react: "fst (reaction_step_h C k dt h) = Inr (length h)"
    by (simp add: reaction_step_h_def h_scale_def)
  have returns: "fst (advection_step_h C U dx dt h) = Inr (length h)
          \<and> fst (diffusion_step_h C D dx dt h) = Inr (length h)
          \<and> fst (adr_step_h C U D k dx dt h) = Inr (length h)"
    if n: "3 \<le> length (h ! C)" and dx: "dx \<noteq> 0"
  proof -
    have ne: "h ! C \<noteq> []" and n2: "2 \<le> length (h ! C)"
      using n by auto
    obtain A where "advection_step (h ! C) U dx dt = Inr A"
      using advection_step_nth [OF ne dx, of U dt] by blast
    with advection_step_h_sim [OF assms, of U dx dt]
    have a: "advection_step_h C U dx dt h = (Inr (length h), h @ [A])"
      by (simp add: sim_returns)
    obtain B where "diffusion_step (h ! C) D dx dt = Inr B"
      using diffusion_step_nth [OF n2 dx, of D dt] by blast
    with diffusion_step_h_sim [OF assms, of D dx dt]
    have b: "diffusion_step_h C D dx dt h = (Inr (length h), h @ [B])"
      by (simp add: sim_returns)
    obtain R where "adr_step (h ! C) U D k dx dt = Inr R"
      using adr_step_nth [OF n2 dx, of U D k dt] by blast
    with adr_step_h_sim [OF assms, of U D k dx dt]
    have r: "adr_step_h C U D k dx dt h = (Inr (length h), h @ [R])"
      by (simp add: sim_returns)
    from a b r show ?thesis by simp
  qed
  from frame react returns show ?thesis
    by blast
qed

theorem steppers_leave_input_witness:
  "(0 :: nat) < length [[1, 2, 4 :: real]]
   \<and> 3 \<le> length ([[1, 2, 4 :: real]] ! 0) \<and> (1 :: real) \<noteq> 0
   \<and> advection_step_h 0 1 1 (1 / 4) [[1, 2, 4]] = (Inr 1, [[1, 2, 4], [1, 7 / 4, 7 / 2]])
   \<and> diffusion_step_h 0 1 1 (1 / 4) [[1, 2, 4]] = (Inr 1, [[1, 2, 4], [5 / 4, 9 / 4, 7 / 2]])
   \<and> adr_step_h 0 1 1 1 1 (1 / 4) [[1, 2, 4]] = (Inr 1, [[1, 2, 4], [1, 3 / 2, 2]])
   \<and> fst (reaction_step_h 0 1 (1 / 4) [[1, 2, 4]]) = Inr 1
   \<and> fresh_call [[1, 2, 4]] 0 (Inr 1, [[1, 2, 4], [1, 7 / 4, 7 / 2]])
   \<and> fresh_call [[1, 2, 4]] 0 (Inr 1, [[1, 2, 4], [5 / 4, 9 / 4, 7 / 2]])
   \<and> fresh_call [[1, 2, 4]] 0 (Inr 1, [[1, 2, 4], [1, 3 / 2, 2]])"
proof -
  have a: "advection_step_h 0 1 1 (1 / 4) [[1, 2, 4]] = (Inr 1, [[1, 2, 4], [1, 7 / 4, 7 / 2]])"
    by code_simp
  have d: "diffusion_step_h 0 1 1 (1 / 4) [[1, 2, 4]] = (Inr 1, [[1, 2, 4], [5 / 4, 9 / 4, 7 / 2]])"
    by code_simp
  have r: "adr_step_h 0 1 1 1 1 (1 / 4) [[1, 2, 4]] = (Inr 1, [[1, 2, 4], [1, 3 / 2, 2]])"
    by code_simp
  from steppers_leave_input [of 0 "[[1, 2, 4]]" 1 1 "1 / 4" 1 1]
  have "fresh_call [[1, 2, 4]] 0 (advection_step_h 0 1 1 (1 / 4) [[1, 2, 4]])"
    and "fresh_call [[1, 2, 4]] 0 (diffusion_step_h 0 1 1 (1 / 4) [[1, 2, 4]])"
    and "fresh_call [[1, 2, 4]] 0 (adr_step_h 0 1 1 1 1 (1 / 4) [[1, 2, 4]])"
    and "fst (reaction_step_h 0 1 (1 / 4) [[1, 2, 4]]) = Inr 1"
    by simp_all
  then show ?thesis
    unfolding a d r by simp
qed

end
